theory Spec2Isabelle
  imports Complex_Main
begin

section \<open>Double-precision values\<close>

text \<open>
  The kernel stores and returns C++ \<^verbatim>\<open>double\<close>s. A double is modelled by the real number
  it denotes, or it is one of the three special values of IEEE 754. An operation computes
  the exact real result and rounds it to the binary64 format (\<open>rnd\<close> below): to the nearest
  representable number, ties to the even significand, with subnormal numbers below
  \<^verbatim>\<open>2^-1022\<close>, underflow to zero and overflow to infinity.

  IEEE 754 requires this rounding of \<open>+\<close>, \<open>-\<close>, \<open>*\<close>, \<open>/\<close> and \<^verbatim>\<open>sqrt\<close>. The C library
  promises of \<^verbatim>\<open>exp\<close> and \<^verbatim>\<open>pow\<close> only a result close to the rounded one; they are
  taken as correctly rounded here, and the theorems below use of them only their special
  cases, their sign, their overflow and underflow, their monotonicity and the results that
  are exact. The sign of zero is not modelled: \<open>Finite 0\<close> stands for both zeros, on which
  every operation of the kernel agrees.
\<close>

datatype double = Finite real | PInf | NInf | NaN

subsection \<open>Rounding to binary64\<close>

text \<open>Rounding a real to the nearest integer, ties to even.\<close>

definition rne :: "real \<Rightarrow> int" where
  "rne q =
     (if q - of_int \<lfloor>q\<rfloor> < 1 / 2 then \<lfloor>q\<rfloor>
      else if 1 / 2 < q - of_int \<lfloor>q\<rfloor> then \<lfloor>q\<rfloor> + 1
      else if even \<lfloor>q\<rfloor> then \<lfloor>q\<rfloor> else \<lfloor>q\<rfloor> + 1)"

text \<open>
  The exponent of the binade of a positive real, not below that of the subnormal numbers,
  and the distance of two neighbouring doubles there (52 fraction bits).
\<close>

definition expo :: "real \<Rightarrow> int" where
  "expo x = max \<lfloor>log 2 x\<rfloor> (- 1022)"

definition ulp :: "real \<Rightarrow> real" where
  "ulp x = 2 powi (expo x - 52)"

text \<open>The nearest multiple of \<open>ulp x\<close>; it overflows from \<^verbatim>\<open>2^1024\<close> on.\<close>

definition nearest :: "real \<Rightarrow> real" where
  "nearest x = of_int (rne (x / ulp x)) * ulp x"

text \<open>
  Rounding a positive real, and from it rounding any real: the format is symmetric, so a
  negative real rounds to the negation of what its absolute value rounds to.
\<close>

fun dneg :: "double \<Rightarrow> double" where
  "dneg (Finite x) = Finite (- x)"
| "dneg PInf = NInf"
| "dneg NInf = PInf"
| "dneg NaN = NaN"

definition round_pos :: "real \<Rightarrow> double" where
  "round_pos x = (if 2 powi 1024 \<le> nearest x then PInf else Finite (nearest x))"

definition rnd :: "real \<Rightarrow> double" where
  "rnd x = (if x = 0 then Finite 0 else if 0 < x then round_pos x else dneg (round_pos (- x)))"

subsection \<open>Arithmetic and comparisons\<close>

fun dadd :: "double \<Rightarrow> double \<Rightarrow> double" where
  "dadd NaN _ = NaN"
| "dadd _ NaN = NaN"
| "dadd (Finite x) (Finite y) = rnd (x + y)"
| "dadd PInf NInf = NaN"
| "dadd NInf PInf = NaN"
| "dadd PInf _ = PInf"
| "dadd NInf _ = NInf"
| "dadd _ PInf = PInf"
| "dadd _ NInf = NInf"

definition dsub :: "double \<Rightarrow> double \<Rightarrow> double" where
  "dsub x y = dadd x (dneg y)"

fun dmul :: "double \<Rightarrow> double \<Rightarrow> double" where
  "dmul NaN _ = NaN"
| "dmul _ NaN = NaN"
| "dmul (Finite x) (Finite y) = rnd (x * y)"
| "dmul (Finite x) PInf = (if x = 0 then NaN else if 0 < x then PInf else NInf)"
| "dmul (Finite x) NInf = (if x = 0 then NaN else if 0 < x then NInf else PInf)"
| "dmul PInf (Finite y) = (if y = 0 then NaN else if 0 < y then PInf else NInf)"
| "dmul NInf (Finite y) = (if y = 0 then NaN else if 0 < y then NInf else PInf)"
| "dmul PInf PInf = PInf"
| "dmul PInf NInf = NInf"
| "dmul NInf PInf = NInf"
| "dmul NInf NInf = PInf"


text \<open>The comparisons of IEEE 754: every comparison with \<open>NaN\<close> is false.\<close>

fun dless :: "double \<Rightarrow> double \<Rightarrow> bool" where
  "dless NaN _ = False"
| "dless _ NaN = False"
| "dless (Finite x) (Finite y) = (x < y)"
| "dless (Finite x) PInf = True"
| "dless (Finite x) NInf = False"
| "dless PInf _ = False"
| "dless NInf (Finite y) = True"
| "dless NInf PInf = True"
| "dless NInf NInf = False"

fun dle :: "double \<Rightarrow> double \<Rightarrow> bool" where
  "dle NaN _ = False"
| "dle _ NaN = False"
| "dle (Finite x) (Finite y) = (x \<le> y)"
| "dle (Finite x) PInf = True"
| "dle (Finite x) NInf = False"
| "dle PInf (Finite y) = False"
| "dle PInf PInf = True"
| "dle PInf NInf = False"
| "dle NInf _ = True"


fun isinf :: "double \<Rightarrow> bool" where
  "isinf PInf = True"
| "isinf NInf = True"
| "isinf _ = False"

subsection \<open>The functions of \<^verbatim>\<open><cmath>\<close> that the kernel calls\<close>

fun dexp :: "double \<Rightarrow> double" where
  "dexp (Finite x) = rnd (exp x)"
| "dexp PInf = PInf"
| "dexp NInf = Finite 0"
| "dexp NaN = NaN"

fun dsqrt :: "double \<Rightarrow> double" where
  "dsqrt (Finite x) = (if x < 0 then NaN else rnd (sqrt x))"
| "dsqrt PInf = PInf"
| "dsqrt NInf = NaN"
| "dsqrt NaN = NaN"

text \<open>
  \<^verbatim>\<open>pow(x, y)\<close> with the special cases of C (Annex F): a zero base with a negative
  exponent is a pole and gives infinity; a negative base is defined for integral exponents
  only; \<^verbatim>\<open>pow(x, 0)\<close> and \<^verbatim>\<open>pow(1, y)\<close> are 1 even for \<open>NaN\<close>.
\<close>

fun dpow :: "double \<Rightarrow> double \<Rightarrow> double" where
  "dpow x (Finite y) =
     (if y = 0 then Finite 1
      else case x of
        NaN \<Rightarrow> NaN
      | Finite b \<Rightarrow>
          (if b = 0 then (if y < 0 then PInf else Finite 0)
           else if 0 < b then rnd (b powr y)
           else if y = of_int \<lfloor>y\<rfloor>
             then rnd ((if even \<lfloor>y\<rfloor> then 1 else - 1) * ((- b) powr y))
             else NaN)
      | PInf \<Rightarrow> (if y < 0 then Finite 0 else PInf)
      | NInf \<Rightarrow>
          (if y < 0 then Finite 0
           else if y = of_int \<lfloor>y\<rfloor> \<and> odd \<lfloor>y\<rfloor> then NInf else PInf))"
| "dpow x PInf =
     (case x of
        NaN \<Rightarrow> NaN
      | Finite b \<Rightarrow>
          (if \<bar>b\<bar> = 1 then Finite 1 else if \<bar>b\<bar> < 1 then Finite 0 else PInf)
      | PInf \<Rightarrow> PInf
      | NInf \<Rightarrow> PInf)"
| "dpow x NInf =
     (case x of
        NaN \<Rightarrow> NaN
      | Finite b \<Rightarrow>
          (if \<bar>b\<bar> = 1 then Finite 1 else if \<bar>b\<bar> < 1 then PInf else Finite 0)
      | PInf \<Rightarrow> Finite 0
      | NInf \<Rightarrow> Finite 0)"
| "dpow x NaN = (if x = Finite 1 then Finite 1 else NaN)"

section \<open>The squared Euclidean distance\<close>

datatype error = SizeMismatch

text \<open>
  Modelled from the spec: \<^verbatim>\<open>metric::SquaredEuclideanDistance::Evaluate\<close> is called by the
  kernel but defined in another header of the library. The spec gives it as the sum of the
  squared per-coordinate differences of two vectors of equal length; vectors of different
  lengths are refused by the collaborator, which is the error value here.
\<close>

definition SquaredEuclideanDistance_Evaluate :: "double list \<Rightarrow> double list \<Rightarrow> error + double" where
  "SquaredEuclideanDistance_Evaluate a b =
     (if length a \<noteq> length b then Inl SizeMismatch
      else Inr (foldl dadd (Finite 0)
                  (map (\<lambda>(x, y). dmul (dsub x y) (dsub x y)) (zip a b))))"

section \<open>The exponential kernel\<close>

record ExponentialKernel =
  bandwidth :: double
  gamma :: double

text \<open>The default constructor: \<^verbatim>\<open>bandwidth(1.0), gamma(-0.5)\<close>.\<close>

definition ExponentialKernel_default :: ExponentialKernel where
  "ExponentialKernel_default = \<lparr> bandwidth = Finite 1, gamma = Finite (- (1 / 2)) \<rparr>"

text \<open>The constructor with a bandwidth: \<^verbatim>\<open>gamma(-0.5 * pow(bandwidth, -2.0))\<close>.\<close>

definition ExponentialKernel_bandwidth :: "double \<Rightarrow> ExponentialKernel" where
  "ExponentialKernel_bandwidth b =
     \<lparr> bandwidth = b, gamma = dmul (Finite (- (1 / 2))) (dpow b (Finite (- 2))) \<rparr>"

text \<open>\<^verbatim>\<open>Evaluate(const VecType& a, const VecType& b)\<close>.\<close>

definition Evaluate_vec :: "ExponentialKernel \<Rightarrow> double list \<Rightarrow> double list \<Rightarrow> error + double" where
  "Evaluate_vec k a b =
     (case SquaredEuclideanDistance_Evaluate a b of
        Inl e \<Rightarrow> Inl e
      | Inr d \<Rightarrow> Inr (dexp (dmul (gamma k) (dsqrt d))))"

text \<open>\<^verbatim>\<open>Evaluate(double t)\<close>.\<close>

definition Evaluate :: "ExponentialKernel \<Rightarrow> double \<Rightarrow> double" where
  "Evaluate k t = dexp (dmul (gamma k) t)"

definition Bandwidth :: "ExponentialKernel \<Rightarrow> double" where
  "Bandwidth k = bandwidth k"

definition Gamma :: "ExponentialKernel \<Rightarrow> double" where
  "Gamma k = gamma k"

subsection \<open>Sequences of calls on one instance\<close>

text \<open>
  Every member function of the class is \<^verbatim>\<open>const\<close>. A call is modelled in state-passing
  style all the same, returning its value and the instance after the call, so that what a
  sequence of calls does to the two fields can be stated.
\<close>

datatype call =
  CallEvaluateVec "double list" "double list"
| CallEvaluate double
| CallBandwidth
| CallGamma

fun invoke :: "ExponentialKernel \<Rightarrow> call \<Rightarrow> (error + double) \<times> ExponentialKernel" where
  "invoke k (CallEvaluateVec a b) = (Evaluate_vec k a b, k)"
| "invoke k (CallEvaluate t) = (Inr (Evaluate k t), k)"
| "invoke k CallBandwidth = (Inr (Bandwidth k), k)"
| "invoke k CallGamma = (Inr (Gamma k), k)"

fun run :: "ExponentialKernel \<Rightarrow> call list \<Rightarrow> (error + double) list \<times> ExponentialKernel" where
  "run k [] = ([], k)"
| "run k (c # cs) =
     (case invoke k c of (r, k') \<Rightarrow>
        (case run k' cs of (rs, k'') \<Rightarrow> (r # rs, k'')))"

section \<open>What the spec's formulas denote\<close>


section \<open>Properties of the rounding\<close>

lemma rne_of_int: "rne (of_int n) = n"
  by (simp add: rne_def)

lemma rne_cases: "rne q = \<lfloor>q\<rfloor> \<or> rne q = \<lfloor>q\<rfloor> + 1"
  by (simp add: rne_def)

lemma rne_mono: "q \<le> q' \<Longrightarrow> rne q \<le> rne q'"
proof -
  assume le: "q \<le> q'"
  then have fl: "\<lfloor>q\<rfloor> \<le> \<lfloor>q'\<rfloor>" by (rule floor_mono)
  show ?thesis
  proof (cases "\<lfloor>q\<rfloor> = \<lfloor>q'\<rfloor>")
    case True
    with le have "q - of_int \<lfloor>q\<rfloor> \<le> q' - of_int \<lfloor>q'\<rfloor>" by simp
    with True show ?thesis by (auto simp add: rne_def)
  next
    case False
    with fl have "\<lfloor>q\<rfloor> + 1 \<le> \<lfloor>q'\<rfloor>" by simp
    moreover have "rne q \<le> \<lfloor>q\<rfloor> + 1" using rne_cases [of q] by auto
    moreover have "\<lfloor>q'\<rfloor> \<le> rne q'" using rne_cases [of q'] by auto
    ultimately show ?thesis by linarith
  qed
qed

lemma rne_ge: "of_int n \<le> q \<Longrightarrow> n \<le> rne q"
  using rne_mono [of "of_int n" q] by (simp add: rne_of_int)

lemma rne_le: "q \<le> of_int n \<Longrightarrow> rne q \<le> n"
  using rne_mono [of q "of_int n"] by (simp add: rne_of_int)

lemma floor_log2_bounds:
  assumes "0 < x"
  shows "2 powi \<lfloor>log 2 x\<rfloor> \<le> x" and "x < 2 powi (\<lfloor>log 2 x\<rfloor> + 1)"
proof -
  have "2 powr (of_int \<lfloor>log 2 x\<rfloor>) \<le> x \<and> x < 2 powr (of_int (\<lfloor>log 2 x\<rfloor> + 1))"
    using floor_log_eq_powr_iff [of x 2 "\<lfloor>log 2 x\<rfloor>"] assms by simp
  moreover have "(2::real) powr (of_int (\<lfloor>log 2 x\<rfloor> + 1)) = 2 powi (\<lfloor>log 2 x\<rfloor> + 1)"
    by (rule powr_real_of_int') simp_all
  moreover have "(2::real) powr (of_int \<lfloor>log 2 x\<rfloor>) = 2 powi \<lfloor>log 2 x\<rfloor>"
    by (rule powr_real_of_int') simp_all
  ultimately show "2 powi \<lfloor>log 2 x\<rfloor> \<le> x" and "x < 2 powi (\<lfloor>log 2 x\<rfloor> + 1)"
    by simp_all
qed

lemma floor_log2_powi: "\<lfloor>log 2 (2 powi k)\<rfloor> = k"
proof -
  have "(2::real) powi k = 2 powr (of_int k)" by (simp add: powr_real_of_int')
  then show ?thesis by simp
qed

lemma ulp_pos: "0 < ulp x"
  by (simp add: ulp_def)

lemma expo_mono: "0 < x \<Longrightarrow> x \<le> y \<Longrightarrow> expo x \<le> expo y"
proof -
  assume "0 < x" and "x \<le> y"
  then have "log 2 x \<le> log 2 y" by simp
  then have "\<lfloor>log 2 x\<rfloor> \<le> \<lfloor>log 2 y\<rfloor>" by (rule floor_mono)
  then show ?thesis by (simp add: expo_def)
qed

lemma below_next_binade: "0 < x \<Longrightarrow> x < 2 powi (expo x + 1)"
proof -
  assume x: "0 < x"
  have "\<lfloor>log 2 x\<rfloor> + 1 \<le> expo x + 1" by (simp add: expo_def)
  then have "(2::real) powi (\<lfloor>log 2 x\<rfloor> + 1) \<le> 2 powi (expo x + 1)"
    by (intro power_int_increasing) simp_all
  with floor_log2_bounds(2) [OF x] show ?thesis by linarith
qed

lemma powi_split: "(2::real) powi (e + 1) = 2 ^ 53 * 2 powi (e - 52)"
proof -
  have "e + 1 = 53 + (e - 52)" by simp
  then have "(2::real) powi (e + 1) = 2 powi (53 + (e - 52))" by (simp only:)
  also have "\<dots> = 2 powi 53 * 2 powi (e - 52)" by (rule power_int_add) simp
  finally show ?thesis by simp
qed

lemma powi_split': "(2::real) powi e = 2 ^ 52 * 2 powi (e - 52)"
proof -
  have "e = 52 + (e - 52)" by simp
  then have "(2::real) powi e = 2 powi (52 + (e - 52))" by (simp only:)
  also have "\<dots> = 2 powi 52 * 2 powi (e - 52)" by (rule power_int_add) simp
  finally show ?thesis by simp
qed

lemma nearest_nonneg: "0 < x \<Longrightarrow> 0 \<le> nearest x"
proof -
  assume "0 < x"
  then have "of_int 0 \<le> x / ulp x" using ulp_pos [of x] by simp
  then have "0 \<le> rne (x / ulp x)" by (rule rne_ge)
  then show ?thesis using ulp_pos [of x] by (simp add: nearest_def)
qed

lemma nearest_upper: "0 < x \<Longrightarrow> nearest x \<le> 2 powi (expo x + 1)"
proof -
  assume x: "0 < x"
  have "x < 2 ^ 53 * ulp x"
    using below_next_binade [OF x] by (simp only: ulp_def powi_split [of "expo x"])
  then have "x / ulp x \<le> of_int (2 ^ 53)"
    using ulp_pos [of x] by (simp add: pos_divide_le_eq)
  then have "rne (x / ulp x) \<le> 2 ^ 53" by (rule rne_le)
  then have "(of_int (rne (x / ulp x)) :: real) \<le> of_int (2 ^ 53)" by (simp only: of_int_le_iff)
  then have "of_int (rne (x / ulp x)) * ulp x \<le> of_int (2 ^ 53) * ulp x"
    using ulp_pos [of x] by (intro mult_right_mono) simp_all
  then show ?thesis by (simp add: nearest_def ulp_def powi_split [of "expo x"])
qed

lemma nearest_lower: "2 powi (- 1022) \<le> x \<Longrightarrow> 2 powi (expo x) \<le> nearest x"
proof -
  assume n: "2 powi (- 1022) \<le> x"
  have "(0::real) < 2 powi (- 1022)" by simp
  with n have x: "0 < x" by linarith
  from n have "log 2 (2 powi (- 1022)) \<le> log 2 x" by simp
  then have "\<lfloor>log 2 ((2::real) powi (- 1022))\<rfloor> \<le> \<lfloor>log 2 x\<rfloor>" by (rule floor_mono)
  then have e: "expo x = \<lfloor>log 2 x\<rfloor>" by (simp only: floor_log2_powi expo_def)
  have "2 ^ 52 * ulp x \<le> x"
    using floor_log2_bounds(1) [OF x] by (simp only: ulp_def e powi_split' [of "\<lfloor>log 2 x\<rfloor>", symmetric])
  then have "of_int (2 ^ 52) \<le> x / ulp x"
    using ulp_pos [of x] by (simp add: pos_le_divide_eq)
  then have "2 ^ 52 \<le> rne (x / ulp x)" by (rule rne_ge)
  then have "(of_int (2 ^ 52) :: real) \<le> of_int (rne (x / ulp x))" by (simp only: of_int_le_iff)
  then have "of_int (2 ^ 52) * ulp x \<le> of_int (rne (x / ulp x)) * ulp x"
    using ulp_pos [of x] by (intro mult_right_mono) simp_all
  then show ?thesis by (simp add: nearest_def ulp_def powi_split' [of "expo x"])
qed

lemma nearest_mono: "0 < x \<Longrightarrow> x \<le> y \<Longrightarrow> nearest x \<le> nearest y"
proof -
  assume x: "0 < x" and le: "x \<le> y"
  then have y: "0 < y" by simp
  show ?thesis
  proof (cases "expo x = expo y")
    case True
    then have u: "ulp x = ulp y" by (simp add: ulp_def)
    from le have "x / ulp y \<le> y / ulp y" using ulp_pos [of y] by (simp add: divide_right_mono)
    then have "rne (x / ulp y) \<le> rne (y / ulp y)" by (rule rne_mono)
    then have "(of_int (rne (x / ulp y)) :: real) \<le> of_int (rne (y / ulp y))"
      by (simp only: of_int_le_iff)
    then show ?thesis
      using ulp_pos [of y] by (simp add: nearest_def u mult_right_mono)
  next
    case False
    with expo_mono [OF x le] have lt: "expo x + 1 \<le> expo y" by simp
    then have "- 1022 < expo y" by (simp add: expo_def)
    then have ey: "expo y = \<lfloor>log 2 y\<rfloor>" by (simp add: expo_def max_def split: if_splits)
    have "(2::real) powi (- 1022) \<le> 2 powi (expo y)"
      using \<open>- 1022 < expo y\<close> by (intro power_int_increasing) simp_all
    also have "\<dots> \<le> y" using floor_log2_bounds(1) [OF y] by (simp add: ey)
    finally have "2 powi (expo y) \<le> nearest y" by (rule nearest_lower)
    moreover have "(2::real) powi (expo x + 1) \<le> 2 powi (expo y)"
      using lt by (intro power_int_increasing) simp_all
    moreover note nearest_upper [OF x]
    ultimately show ?thesis by linarith
  qed
qed

lemma nearest_powi: "- 1074 \<le> k \<Longrightarrow> nearest (2 powi k) = 2 powi k"
proof -
  assume k: "- 1074 \<le> k"
  let ?e = "expo (2 powi k)"
  have e: "?e = max k (- 1022)" by (simp add: expo_def floor_log2_powi)
  with k have nn: "0 \<le> k - (?e - 52)" by simp
  have "2 powi k / ulp (2 powi k) = (2::real) powi (k - (?e - 52))"
    by (simp add: ulp_def power_int_diff)
  also have "\<dots> = of_int (2 ^ nat (k - (?e - 52)))"
    using nn by (simp add: power_int_nonneg_exp)
  finally have "rne (2 powi k / ulp (2 powi k)) = 2 ^ nat (k - (?e - 52))"
    by (simp only: rne_of_int)
  then have "nearest (2 powi k) = (2::real) powi (k - (?e - 52)) * 2 powi (?e - 52)"
    using nn by (simp add: nearest_def ulp_def power_int_nonneg_exp)
  then show ?thesis by (simp add: power_int_add [symmetric])
qed

lemma dle_trans: "dle a b \<Longrightarrow> dle b c \<Longrightarrow> dle a c"
  by (cases a; cases b; cases c) simp_all

lemma dle_dneg: "dle a b \<Longrightarrow> dle (dneg b) (dneg a)"
  by (cases a; cases b) simp_all

lemma dneg_dneg: "dneg (dneg a) = a"
  by (cases a) simp_all

lemma round_pos_nonneg: "0 < x \<Longrightarrow> dle (Finite 0) (round_pos x)"
  using nearest_nonneg [of x] by (simp add: round_pos_def)

lemma round_pos_mono: "0 < x \<Longrightarrow> x \<le> y \<Longrightarrow> dle (round_pos x) (round_pos y)"
  using nearest_mono [of x y] by (simp add: round_pos_def)

lemma rnd_zero: "rnd 0 = Finite 0"
  by (simp add: rnd_def)

lemma rnd_minus: "rnd (- x) = dneg (rnd x)"
  by (simp add: rnd_def dneg_dneg)

lemma rnd_nonneg: "0 \<le> x \<Longrightarrow> dle (Finite 0) (rnd x)"
  using round_pos_nonneg [of x] by (simp add: rnd_def)

lemma rnd_nonpos: "x \<le> 0 \<Longrightarrow> dle (rnd x) (Finite 0)"
  using dle_dneg [OF rnd_nonneg [of "- x"]] by (simp add: rnd_minus dneg_dneg)

lemma rnd_mono: "x \<le> y \<Longrightarrow> dle (rnd x) (rnd y)"
proof -
  assume le: "x \<le> y"
  consider "0 < x" | "y < 0" | "x \<le> 0" "0 \<le> y" using le by linarith
  then show ?thesis
  proof cases
    case 1
    with le show ?thesis using round_pos_mono [of x y] by (simp add: rnd_def)
  next
    case 2
    with le have "0 < - y" and "- y \<le> - x" by simp_all
    then have "dle (round_pos (- y)) (round_pos (- x))" by (rule round_pos_mono)
    then have "dle (dneg (round_pos (- x))) (dneg (round_pos (- y)))" by (rule dle_dneg)
    with 2 le show ?thesis by (simp add: rnd_def)
  next
    case 3
    then show ?thesis using dle_trans [OF rnd_nonpos rnd_nonneg] by blast
  qed
qed

lemma rnd_powi: "- 1074 \<le> k \<Longrightarrow> k \<le> 1023 \<Longrightarrow> rnd (2 powi k) = Finite (2 powi k)"
proof -
  assume lo: "- 1074 \<le> k" and hi: "k \<le> 1023"
  from hi have "(2::real) powi k < 2 powi 1024"
    by (intro power_int_strict_increasing) simp_all
  then have "\<not> (2::real) powi 1024 \<le> 2 powi k" by (simp only: not_le)
  then show ?thesis
    by (simp only: rnd_def round_pos_def nearest_powi [OF lo]) simp
qed

lemma rnd_one: "rnd 1 = Finite 1"
  using rnd_powi [of 0] by simp

lemma rnd_overflow: "2 powi 1024 \<le> x \<Longrightarrow> rnd x = PInf"
proof -
  assume big: "2 powi 1024 \<le> x"
  have "(0::real) < 2 powi 1024" by simp
  with big have x: "0 < x" by linarith
  have "nearest (2 powi 1024) \<le> nearest x"
    using big by (intro nearest_mono) simp_all
  then have "2 powi 1024 \<le> nearest x" by (simp only: nearest_powi)
  with x show ?thesis by (simp only: rnd_def round_pos_def) simp
qed


lemma rnd_between:
  assumes "- 1074 \<le> j" and "k \<le> 1023" and "2 powi j \<le> x" and "x \<le> 2 powi k"
  shows "\<exists>r. rnd x = Finite r \<and> 2 powi j \<le> r \<and> r \<le> 2 powi k"
proof -
  have "(2::real) powi j \<le> 2 powi k" using assms(3,4) by linarith
  have jk: "j \<le> k"
  proof (rule ccontr)
    assume "\<not> j \<le> k"
    then have "(2::real) powi k < 2 powi j" by (intro power_int_strict_increasing) simp_all
    with \<open>(2::real) powi j \<le> 2 powi k\<close> show False by linarith
  qed
  have "dle (rnd (2 powi j)) (rnd x)" using assms(3) by (rule rnd_mono)
  moreover have "dle (rnd x) (rnd (2 powi k))" using assms(4) by (rule rnd_mono)
  moreover have "rnd (2 powi j) = Finite (2 powi j)" using assms(1,2) jk by (intro rnd_powi) simp_all
  moreover have "rnd (2 powi k) = Finite (2 powi k)" using assms(1,2) jk by (intro rnd_powi) simp_all
  ultimately show ?thesis by (cases "rnd x") simp_all
qed




lemma rnd_upto:
  assumes "- 1074 \<le> k" and "k \<le> 1023" and "0 \<le> x" and "x \<le> 2 powi k"
  shows "\<exists>r. rnd x = Finite r \<and> 0 \<le> r \<and> r \<le> 2 powi k"
proof -
  have "dle (Finite 0) (rnd x)" using assms(3) by (rule rnd_nonneg)
  moreover have "dle (rnd x) (rnd (2 powi k))" using assms(4) by (rule rnd_mono)
  moreover have "rnd (2 powi k) = Finite (2 powi k)" using assms(1,2) by (rule rnd_powi)
  ultimately show ?thesis by (cases "rnd x") simp_all
qed

lemma rnd_two: "rnd 2 = Finite 2"
  using rnd_powi [of 1] by simp

lemma rnd_four: "rnd 4 = Finite 4"
  using rnd_powi [of 2] by simp



section \<open>Properties of the constructor\<close>

lemma powr_minus_two: "0 < c \<Longrightarrow> c powr (- 2) = 1 / c\<^sup>2" for c :: real
  by (simp add: powr_minus divide_inverse)

lemma dpow_minus_two:
  "dpow (Finite b) (Finite (- 2)) = (if b = 0 then PInf else rnd (1 / b\<^sup>2))"
proof (cases "b = 0")
  case True
  then show ?thesis by simp
next
  case False
  show ?thesis
  proof (cases "0 < b")
    case True
    then show ?thesis using powr_minus_two [of b] by simp
  next
    case neg: False
    with False have "0 < - b" by simp
    from powr_minus_two [OF this] have "(- b) powr (- 2) = 1 / b\<^sup>2" by simp
    with False neg show ?thesis by simp
  qed
qed

lemma gamma_of_bandwidth:
  "gamma (ExponentialKernel_bandwidth (Finite b)) =
     dmul (Finite (- (1 / 2))) (if b = 0 then PInf else rnd (1 / b\<^sup>2))"
  unfolding ExponentialKernel_bandwidth_def
  by (simp only: dpow_minus_two) simp

lemma gamma_zero_bandwidth: "gamma (ExponentialKernel_bandwidth (Finite 0)) = NInf"
  by (simp add: gamma_of_bandwidth)

lemma gamma_minus_bandwidth:
  "gamma (ExponentialKernel_bandwidth (Finite (- b))) =
     gamma (ExponentialKernel_bandwidth (Finite b))"
  by (simp add: gamma_of_bandwidth)



lemma inverse_square_upper:
  fixes b :: real
  assumes "2 powi (- 511) \<le> \<bar>b\<bar>"
  shows "1 / b\<^sup>2 \<le> 2 powi 1022"
proof -
  have pos: "(0::real) < 2 powi (- 511)" by (rule zero_less_power_int) simp
  have "(2 powi (- 511))\<^sup>2 \<le> \<bar>b\<bar>\<^sup>2"
    by (rule power_mono [OF assms less_imp_le [OF pos]])
  moreover have "((2::real) powi (- 511))\<^sup>2 = 2 powi (- 1022)"
    by (simp only: power_int_power') simp
  ultimately have sq: "2 powi (- 1022) \<le> b\<^sup>2" by (simp only: power2_abs)
  have pp: "(0::real) < 2 powi (- 1022)" by (rule zero_less_power_int) simp
  have "1 / b\<^sup>2 \<le> 1 / 2 powi (- 1022)"
    by (rule frac_le [OF _ _ pp sq]) simp_all
  also have "\<dots> = 2 powi (- (- 1022))" by (rule power_int_minus_divide [symmetric])
  also have "\<dots> = 2 powi 1022" by (simp only: minus_minus)
  finally show ?thesis .
qed

lemma inverse_square_lower:
  fixes b :: real
  assumes "b \<noteq> 0" and "\<bar>b\<bar> \<le> 2 powi 511"
  shows "2 powi (- 1022) \<le> 1 / b\<^sup>2"
proof -
  have "\<bar>b\<bar>\<^sup>2 \<le> (2 powi 511)\<^sup>2" by (rule power_mono [OF assms(2) abs_ge_zero])
  moreover have "((2::real) powi 511)\<^sup>2 = 2 powi 1022"
    by (simp only: power_int_power') simp
  ultimately have sq: "b\<^sup>2 \<le> 2 powi 1022" by (simp only: power2_abs)
  have bp: "0 < b\<^sup>2" using assms(1) by simp
  have "1 / 2 powi 1022 \<le> 1 / b\<^sup>2"
    by (rule frac_le [OF _ _ bp sq]) simp_all
  moreover have "1 / (2::real) powi 1022 = 2 powi (- 1022)"
    by (simp only: power_int_minus_divide)
  ultimately show ?thesis by (simp only:)
qed

lemma half_powi: "(2::real) powi k / 2 = 2 powi (k - 1)"
  by (simp add: power_int_diff)

lemma gamma_finite:
  assumes "2 powi (- 511) \<le> \<bar>b\<bar>"
  shows "\<exists>g. gamma (ExponentialKernel_bandwidth (Finite b)) = Finite g \<and> g \<le> 0"
proof -
  have "(0::real) < 2 powi (- 511)" by (rule zero_less_power_int) simp
  with assms have nz: "b \<noteq> 0" by auto
  have "0 \<le> 1 / b\<^sup>2" by simp
  from rnd_upto [OF _ _ this inverse_square_upper [OF assms]]
  obtain r where r: "rnd (1 / b\<^sup>2) = Finite r" "0 \<le> r" "r \<le> 2 powi 1022" by auto
  have "r / 2 \<le> 2 powi 1022 / 2" using r(3) by simp
  then have "r / 2 \<le> 2 powi 1021" by (simp only: half_powi) simp
  moreover have "0 \<le> r / 2" using r(2) by simp
  ultimately obtain h where h: "rnd (r / 2) = Finite h" "0 \<le> h"
    using rnd_upto [of 1021 "r / 2"] by auto
  have "dmul (Finite (- (1 / 2))) (Finite r) = rnd (- (r / 2))" by simp
  also have "\<dots> = Finite (- h)" by (simp only: rnd_minus h dneg.simps)
  finally show ?thesis using nz r(1) h(2) by (simp add: gamma_of_bandwidth)
qed

lemma gamma_finite_negative:
  assumes "2 powi (- 511) \<le> \<bar>b\<bar>" and "\<bar>b\<bar> \<le> 2 powi 511"
  shows "\<exists>g. gamma (ExponentialKernel_bandwidth (Finite b)) = Finite g \<and> g < 0"
proof -
  have "(0::real) < 2 powi (- 511)" by (rule zero_less_power_int) simp
  with assms have nz: "b \<noteq> 0" by auto
  from rnd_between [OF _ _ inverse_square_lower [OF nz assms(2)] inverse_square_upper [OF assms(1)]]
  obtain r where r: "rnd (1 / b\<^sup>2) = Finite r" "2 powi (- 1022) \<le> r" "r \<le> 2 powi 1022"
    by auto
  have "r / 2 \<le> 2 powi 1022 / 2" using r(3) by simp
  then have up: "r / 2 \<le> 2 powi 1021" by (simp only: half_powi) simp
  have "2 powi (- 1022) / 2 \<le> r / 2" using r(2) by simp
  then have lo: "2 powi (- 1023) \<le> r / 2" by (simp only: half_powi) simp
  from rnd_between [OF _ _ lo up]
  obtain h where h: "rnd (r / 2) = Finite h" "2 powi (- 1023) \<le> h" by auto
  have "(0::real) < 2 powi (- 1023)" by (rule zero_less_power_int) simp
  with h(2) have hpos: "0 < h" by linarith
  have "dmul (Finite (- (1 / 2))) (Finite r) = rnd (- (r / 2))" by simp
  also have "\<dots> = Finite (- h)" by (simp only: rnd_minus h dneg.simps)
  finally show ?thesis using nz r(1) hpos by (simp add: gamma_of_bandwidth)
qed

lemma inverse_square_powi: "1 / ((2::real) powi k)\<^sup>2 = 2 powi (- (2 * k))"
proof -
  have "((2::real) powi k)\<^sup>2 = 2 powi (k * 2)" by (simp only: power_int_power') simp
  then have "1 / ((2::real) powi k)\<^sup>2 = 1 / 2 powi (2 * k)" by (simp only: mult.commute)
  also have "\<dots> = 2 powi (- (2 * k))" by (rule power_int_minus_divide [symmetric])
  finally show ?thesis .
qed

lemma gamma_powi:
  assumes "- 511 \<le> k" and "k \<le> 511"
  shows "gamma (ExponentialKernel_bandwidth (Finite (2 powi k))) = Finite (- (2 powi (- (2 * k) - 1)))"
proof -
  have nz: "(2::real) powi k \<noteq> 0" by simp
  have p: "rnd (2 powi (- (2 * k))) = Finite (2 powi (- (2 * k)))"
    using assms by (intro rnd_powi) simp_all
  have h: "rnd (2 powi (- (2 * k) - 1)) = Finite (2 powi (- (2 * k) - 1))"
    using assms by (intro rnd_powi) simp_all
  have "gamma (ExponentialKernel_bandwidth (Finite (2 powi k))) =
      dmul (Finite (- (1 / 2))) (Finite (2 powi (- (2 * k))))"
    using nz by (simp only: gamma_of_bandwidth inverse_square_powi p if_False)
  also have "\<dots> = rnd (- (2 powi (- (2 * k)) / 2))" by simp
  also have "\<dots> = Finite (- (2 powi (- (2 * k) - 1)))"
    by (simp only: half_powi rnd_minus h dneg.simps)
  finally show ?thesis .
qed

lemma gamma_powi_overflow:
  assumes "k \<le> - 512"
  shows "gamma (ExponentialKernel_bandwidth (Finite (2 powi k))) = NInf"
proof -
  have nz: "(2::real) powi k \<noteq> 0" by simp
  have "(2::real) powi 1024 \<le> 2 powi (- (2 * k))"
    using assms by (intro power_int_increasing) simp_all
  then have p: "rnd (2 powi (- (2 * k))) = PInf" by (rule rnd_overflow)
  have "gamma (ExponentialKernel_bandwidth (Finite (2 powi k))) = dmul (Finite (- (1 / 2))) PInf"
    using nz by (simp only: gamma_of_bandwidth inverse_square_powi p if_False)
  then show ?thesis by simp
qed


lemma gamma_bandwidth_one: "gamma (ExponentialKernel_bandwidth (Finite 1)) = Finite (- (1 / 2))"
  using gamma_powi [of 0] by simp








section \<open>Properties of the distance\<close>






lemma squares_fold_same:
  "foldl dadd (Finite 0)
     (map (\<lambda>(x, y). dmul (dsub x y) (dsub x y)) (zip (map Finite xs) (map Finite xs))) =
   Finite 0"
  by (induction xs) (simp_all add: dsub_def rnd_zero)

lemma SquaredEuclideanDistance_same:
  "SquaredEuclideanDistance_Evaluate (map Finite xs) (map Finite xs) = Inr (Finite 0)"
  by (simp add: SquaredEuclideanDistance_Evaluate_def squares_fold_same)


lemma distance_example:
  "SquaredEuclideanDistance_Evaluate [Finite 0, Finite 0] [Finite 2, Finite 0] = Inr (Finite 4)"
  by (simp add: SquaredEuclideanDistance_Evaluate_def dsub_def rnd_minus rnd_two rnd_four rnd_zero)




lemma dsub_swap: "dsub y x = dneg (dsub x y)"
proof (cases x; cases y)
  fix a b
  assume "x = Finite a" and "y = Finite b"
  moreover have "rnd (b + - a) = dneg (rnd (a + - b))"
    using rnd_minus [of "a + - b"] by simp
  ultimately show ?thesis by (simp add: dsub_def)
qed (simp_all add: dsub_def)

lemma dmul_dneg_dneg: "dmul (dneg z) (dneg z) = dmul z z"
  by (cases z) simp_all

lemma dmul_dsub_swap: "dmul (dsub x y) (dsub x y) = dmul (dsub y x) (dsub y x)"
  by (simp only: dsub_swap [of y x] dmul_dneg_dneg)

lemma squares_swap:
  "map (\<lambda>(x, y). dmul (dsub x y) (dsub x y)) (zip a b) =
   map (\<lambda>(x, y). dmul (dsub x y) (dsub x y)) (zip b a)"
proof (induction a arbitrary: b)
  case Nil
  then show ?case by simp
next
  case (Cons x a)
  then show ?case by (cases b) (simp_all add: dmul_dsub_swap [of x])
qed

lemma SquaredEuclideanDistance_sym:
  "SquaredEuclideanDistance_Evaluate a b = SquaredEuclideanDistance_Evaluate b a"
  unfolding SquaredEuclideanDistance_Evaluate_def
  by (simp only: squares_swap [of a b]) auto

section \<open>Properties of the evaluation\<close>




lemma dexp_dmul_NInf:
  "dexp (dmul NInf z) = Finite 0 \<or> dexp (dmul NInf z) = PInf \<or> dexp (dmul NInf z) = NaN"
  by (cases z) simp_all




lemma Evaluate_vec_of_distance:
  "SquaredEuclideanDistance_Evaluate a b = Inr d \<Longrightarrow>
   Evaluate_vec k a b = Inr (Evaluate k (dsqrt d))"
  by (simp add: Evaluate_vec_def Evaluate_def)


lemma invoke_keeps_instance: "snd (invoke k c) = k"
  by (cases c) simp_all

section \<open>The claims\<close>

text \<open>
  Claim C1. For every kernel instance and every pair of vectors of equal length, the
  two-vector \<open>Evaluate\<close> returns the exponential of \<open>gamma\<close> times the square root of the
  squared Euclidean distance of the two vectors; for every scalar \<open>t\<close>, the scalar
  \<open>Evaluate\<close> returns the exponential of \<open>gamma * t\<close>.
\<close>

theorem Evaluate_computes_exp_gamma_distance:
  "length a = length b \<Longrightarrow>
   (\<exists>d. SquaredEuclideanDistance_Evaluate a b = Inr d \<and>
        Evaluate_vec k a b = Inr (dexp (dmul (Gamma k) (dsqrt d)))) \<and>
   Evaluate k t = dexp (dmul (Gamma k) t)"
  by (simp add: Evaluate_vec_def Evaluate_def Gamma_def SquaredEuclideanDistance_Evaluate_def)

theorem Evaluate_computes_exp_gamma_distance_witness:
  "length [Finite 0, Finite 0] = length [Finite 2, Finite 0] \<and>
   SquaredEuclideanDistance_Evaluate [Finite 0, Finite 0] [Finite 2, Finite 0] = Inr (Finite 4) \<and>
   dsqrt (Finite 4) = Finite 2 \<and>
   Evaluate_vec ExponentialKernel_default [Finite 0, Finite 0] [Finite 2, Finite 0] =
     Inr (rnd (exp (- 1))) \<and>
   Evaluate ExponentialKernel_default (Finite 4) = rnd (exp (- 2))"
proof -
  have g: "Gamma ExponentialKernel_default = Finite (- (1 / 2))"
    by (simp add: Gamma_def ExponentialKernel_default_def)
  have s: "dsqrt (Finite 4) = Finite 2" by (simp add: rnd_two)
  have m: "dmul (Finite (- (1 / 2))) (Finite 2) = Finite (- 1)"
    using rnd_minus [of 1] by (simp add: rnd_one)
  have m': "dmul (Finite (- (1 / 2))) (Finite 4) = Finite (- 2)"
    using rnd_minus [of 2] by (simp add: rnd_two)
  from Evaluate_computes_exp_gamma_distance
    [of "[Finite 0, Finite 0]" "[Finite 2, Finite 0]" ExponentialKernel_default "Finite 4"]
  have "Evaluate_vec ExponentialKernel_default [Finite 0, Finite 0] [Finite 2, Finite 0] =
      Inr (dexp (dmul (Gamma ExponentialKernel_default) (dsqrt (Finite 4)))) \<and>
    Evaluate ExponentialKernel_default (Finite 4) =
      dexp (dmul (Gamma ExponentialKernel_default) (Finite 4))"
    by (auto simp add: distance_example)
  then have "Evaluate_vec ExponentialKernel_default [Finite 0, Finite 0] [Finite 2, Finite 0] =
      Inr (rnd (exp (- 1))) \<and>
    Evaluate ExponentialKernel_default (Finite 4) = rnd (exp (- 2))"
    by (simp only: g s m m' dexp.simps)
  with distance_example s show ?thesis by simp
qed







text \<open>
  Claim C4. For every kernel instance and every pair of vectors of equal length, the
  two-vector \<open>Evaluate\<close> returns what the scalar \<open>Evaluate\<close> returns on the square root of
  the squared Euclidean distance of the two vectors.
\<close>

theorem Evaluate_vec_agrees_with_scalar:
  "length a = length b \<Longrightarrow>
   \<exists>d. SquaredEuclideanDistance_Evaluate a b = Inr d \<and>
       Evaluate_vec k a b = Inr (Evaluate k (dsqrt d))"
  by (simp add: Evaluate_vec_def Evaluate_def SquaredEuclideanDistance_Evaluate_def)

theorem Evaluate_vec_agrees_with_scalar_witness:
  "length [Finite 0, Finite 0] = length [Finite 2, Finite 0] \<and>
   SquaredEuclideanDistance_Evaluate [Finite 0, Finite 0] [Finite 2, Finite 0] = Inr (Finite 4) \<and>
   Evaluate_vec ExponentialKernel_default [Finite 0, Finite 0] [Finite 2, Finite 0] =
     Inr (Evaluate ExponentialKernel_default (dsqrt (Finite 4)))"
  using Evaluate_vec_agrees_with_scalar
    [of "[Finite 0, Finite 0]" "[Finite 2, Finite 0]" ExponentialKernel_default]
  by (auto simp add: distance_example)

text \<open>
  Claim C5 says that \<open>Evaluate(t)\<close> at \<open>t = 0\<close> is 1 for every bandwidth. A zero
  bandwidth refutes it: \<^verbatim>\<open>pow(0.0, -2.0)\<close> is infinite, \<open>gamma\<close> is minus infinity, and
  minus infinity times zero is \<open>NaN\<close>.
\<close>

theorem Evaluate_zero_bandwidth_at_zero_counterexample:
  "Evaluate (ExponentialKernel_bandwidth (Finite 0)) (Finite 0) \<noteq> Finite 1"
  by (simp add: Evaluate_def gamma_zero_bandwidth)

text \<open>
  Claim C5, amended. For every instance whose stored \<open>gamma\<close> is finite, \<open>Evaluate(a, a)\<close>
  is 1 for every real vector \<open>a\<close> and \<open>Evaluate(t)\<close> at \<open>t = 0\<close> is 1. The stored
  \<open>gamma\<close> is finite after default construction and after construction with any bandwidth
  \<open>b\<close> with \<^verbatim>\<open>|b| >= 2^-511\<close>.
\<close>

theorem Evaluate_one_at_distance_zero:
  "(Gamma k = Finite g \<longrightarrow>
      Evaluate k (Finite 0) = Finite 1 \<and>
      Evaluate_vec k (map Finite xs) (map Finite xs) = Inr (Finite 1)) \<and>
   (2 powi (- 511) \<le> \<bar>b\<bar> \<longrightarrow>
      (\<exists>g. Gamma (ExponentialKernel_bandwidth (Finite b)) = Finite g))"
proof (intro conjI impI)
  assume "Gamma k = Finite g"
  then have g: "gamma k = Finite g" by (simp add: Gamma_def)
  show e: "Evaluate k (Finite 0) = Finite 1"
    by (simp add: Evaluate_def g rnd_zero rnd_one)
  have "dsqrt (Finite 0) = Finite 0" by (simp add: rnd_zero)
  with e show "Evaluate_vec k (map Finite xs) (map Finite xs) = Inr (Finite 1)"
    by (simp only: Evaluate_vec_of_distance [OF SquaredEuclideanDistance_same])
next
  assume "2 powi (- 511) \<le> \<bar>b\<bar>"
  from gamma_finite [OF this]
  show "\<exists>g. Gamma (ExponentialKernel_bandwidth (Finite b)) = Finite g"
    unfolding Gamma_def by blast
qed

theorem Evaluate_one_at_distance_zero_witness:
  "Gamma ExponentialKernel_default = Finite (- (1 / 2)) \<and>
   Evaluate ExponentialKernel_default (Finite 0) = Finite 1 \<and>
   Evaluate_vec ExponentialKernel_default [Finite 5, Finite 7] [Finite 5, Finite 7] =
     Inr (Finite 1) \<and>
   2 powi (- 511) \<le> \<bar>- 3 :: real\<bar> \<and>
   (\<exists>g. Gamma (ExponentialKernel_bandwidth (Finite (- 3))) = Finite g)"
proof -
  have g: "Gamma ExponentialKernel_default = Finite (- (1 / 2))"
    by (simp add: Gamma_def ExponentialKernel_default_def)
  have "(2::real) powi (- 511) \<le> 2 powi 0" by (rule power_int_increasing) simp_all
  then have lo: "2 powi (- 511) \<le> \<bar>- 3 :: real\<bar>" by simp
  from Evaluate_one_at_distance_zero [of ExponentialKernel_default "- (1 / 2)" "[5, 7]" "- 3"] g lo
  have "Evaluate ExponentialKernel_default (Finite 0) = Finite 1 \<and>
      Evaluate_vec ExponentialKernel_default (map Finite [5, 7]) (map Finite [5, 7]) =
        Inr (Finite 1) \<and>
      (\<exists>g. Gamma (ExponentialKernel_bandwidth (Finite (- 3))) = Finite g)"
    by blast
  with g lo show ?thesis by simp
qed




text \<open>
  Claim C7. For every kernel instance and every pair of vectors \<open>a\<close> and \<open>b\<close>,
  \<open>Evaluate(a, b)\<close> and \<open>Evaluate(b, a)\<close> are the same (the same value for equal lengths,
  the same refusal otherwise).
\<close>

theorem Evaluate_vec_symmetric:
  "Evaluate_vec k a b = Evaluate_vec k b a"
  unfolding Evaluate_vec_def by (simp only: SquaredEuclideanDistance_sym [of a b])

text \<open>
  Claim C8 says that every zero or negative bandwidth leaves an infinite or positive
  \<open>gamma\<close> in the instance, after which \<open>Evaluate\<close> returns 0, infinity or \<open>NaN\<close>. The
  bandwidth \<open>-1\<close> refutes it: the constructor squares the bandwidth, \<open>gamma\<close> is \<open>-1/2\<close>
  as for the bandwidth 1, and \<open>Evaluate(0)\<close> is 1.
\<close>

theorem negative_bandwidth_gamma_counterexample:
  "\<not> (isinf (Gamma (ExponentialKernel_bandwidth (Finite (- 1)))) \<or>
       dless (Finite 0) (Gamma (ExponentialKernel_bandwidth (Finite (- 1))))) \<and>
   Gamma (ExponentialKernel_bandwidth (Finite (- 1))) = Finite (- (1 / 2)) \<and>
   Evaluate (ExponentialKernel_bandwidth (Finite (- 1))) (Finite 0) = Finite 1"
proof -
  have g: "gamma (ExponentialKernel_bandwidth (Finite (- 1))) = Finite (- (1 / 2))"
    by (simp only: gamma_minus_bandwidth gamma_bandwidth_one)
  show ?thesis by (simp add: Gamma_def g Evaluate_def rnd_zero rnd_one)
qed

text \<open>
  Claim C8, amended. Construction with a zero or negative bandwidth \<open>b\<close> is not refused
  and stores \<open>b\<close> as it is. With \<open>b = 0\<close> the stored \<open>gamma\<close> is minus infinity, and
  every later \<open>Evaluate\<close> returns 0, infinity or \<open>NaN\<close> (the two-vector overload when the
  distance collaborator accepts the vectors).
\<close>

theorem zero_bandwidth_gamma:
  "b \<le> 0 \<Longrightarrow>
   Bandwidth (ExponentialKernel_bandwidth (Finite b)) = Finite b \<and>
   (b = 0 \<longrightarrow>
      Gamma (ExponentialKernel_bandwidth (Finite b)) = NInf \<and>
      (Evaluate (ExponentialKernel_bandwidth (Finite b)) t = Finite 0 \<or>
       Evaluate (ExponentialKernel_bandwidth (Finite b)) t = PInf \<or>
       Evaluate (ExponentialKernel_bandwidth (Finite b)) t = NaN) \<and>
      (Evaluate_vec (ExponentialKernel_bandwidth (Finite b)) u v = Inl SizeMismatch \<or>
       Evaluate_vec (ExponentialKernel_bandwidth (Finite b)) u v = Inr (Finite 0) \<or>
       Evaluate_vec (ExponentialKernel_bandwidth (Finite b)) u v = Inr PInf \<or>
       Evaluate_vec (ExponentialKernel_bandwidth (Finite b)) u v = Inr NaN))"
proof (intro conjI impI)
  show "Bandwidth (ExponentialKernel_bandwidth (Finite b)) = Finite b"
    by (simp add: Bandwidth_def ExponentialKernel_bandwidth_def)
next
  assume "b = 0"
  then show "Gamma (ExponentialKernel_bandwidth (Finite b)) = NInf"
    by (simp add: Gamma_def gamma_zero_bandwidth)
next
  assume "b = 0"
  then have g: "gamma (ExponentialKernel_bandwidth (Finite b)) = NInf"
    by (simp add: gamma_zero_bandwidth)
  show "Evaluate (ExponentialKernel_bandwidth (Finite b)) t = Finite 0 \<or>
       Evaluate (ExponentialKernel_bandwidth (Finite b)) t = PInf \<or>
       Evaluate (ExponentialKernel_bandwidth (Finite b)) t = NaN"
    unfolding Evaluate_def g by (rule dexp_dmul_NInf)
next
  assume "b = 0"
  then have g: "gamma (ExponentialKernel_bandwidth (Finite b)) = NInf"
    by (simp add: gamma_zero_bandwidth)
  show "Evaluate_vec (ExponentialKernel_bandwidth (Finite b)) u v = Inl SizeMismatch \<or>
       Evaluate_vec (ExponentialKernel_bandwidth (Finite b)) u v = Inr (Finite 0) \<or>
       Evaluate_vec (ExponentialKernel_bandwidth (Finite b)) u v = Inr PInf \<or>
       Evaluate_vec (ExponentialKernel_bandwidth (Finite b)) u v = Inr NaN"
  proof (cases "SquaredEuclideanDistance_Evaluate u v")
    case (Inl e)
    then show ?thesis by (cases e) (simp add: Evaluate_vec_def)
  next
    case (Inr d)
    with dexp_dmul_NInf [of "dsqrt d"] show ?thesis
      by (simp add: Evaluate_vec_def g)
  qed
qed

theorem zero_bandwidth_gamma_witness:
  "(0::real) \<le> 0 \<and> Bandwidth (ExponentialKernel_bandwidth (Finite 0)) = Finite 0 \<and>
   Gamma (ExponentialKernel_bandwidth (Finite 0)) = NInf \<and>
   Evaluate (ExponentialKernel_bandwidth (Finite 0)) (Finite 1) = Finite 0"
  using zero_bandwidth_gamma [of 0 "Finite 1" "[]" "[]"]
  by (simp add: Evaluate_def gamma_zero_bandwidth)

text \<open>
  Claim C9. Any sequence of calls of \<open>Evaluate\<close> (either overload), \<open>Bandwidth()\<close> and
  \<open>Gamma()\<close> on an instance leaves the instance, and so both of its fields, as they were
  at construction; each call of the sequence returns what the same call returns on the
  instance as constructed, so equal calls return equal results wherever they stand.
\<close>

theorem calls_leave_fields_unchanged:
  "snd (run k cs) = k \<and>
   Bandwidth (snd (run k cs)) = Bandwidth k \<and>
   Gamma (snd (run k cs)) = Gamma k \<and>
   fst (run k cs) = map (\<lambda>c. fst (invoke k c)) cs"
proof -
  have "run k cs = (map (\<lambda>c. fst (invoke k c)) cs, k)"
  proof (induction cs)
    case Nil
    then show ?case by simp
  next
    case (Cons c cs)
    obtain r where "invoke k c = (r, k)"
      using invoke_keeps_instance [of k c] by (cases "invoke k c") simp
    with Cons show ?case by simp
  qed
  then show ?thesis by simp
qed

text \<open>
  Claim C10 says that every finite negative bandwidth yields a finite negative \<open>gamma\<close>.
  The bandwidth \<^verbatim>\<open>-2^-600\<close> refutes it: the inverse square overflows and \<open>gamma\<close> is minus
  infinity.
\<close>

theorem tiny_negative_bandwidth_counterexample:
  "Gamma (ExponentialKernel_bandwidth (Finite (- (2 powi (- 600))))) = NInf"
proof -
  have "gamma (ExponentialKernel_bandwidth (Finite (2 powi (- 600)))) = NInf"
    by (rule gamma_powi_overflow) simp
  then show ?thesis by (simp only: Gamma_def gamma_minus_bandwidth)
qed

text \<open>
  Claim C10, amended. For every real \<open>b \<noteq> 0\<close>, the instances constructed with the
  bandwidths \<open>-b\<close> and \<open>b\<close> have the same \<open>gamma\<close> and return the same value from both
  overloads of \<open>Evaluate\<close> on all arguments; for \<^verbatim>\<open>2^-511 <= |b| <= 2^511\<close> that \<open>gamma\<close> is
  finite and negative, for a negative bandwidth as for a positive one.
\<close>

theorem bandwidth_sign_irrelevant:
  "b \<noteq> 0 \<Longrightarrow>
   Gamma (ExponentialKernel_bandwidth (Finite (- b))) =
     Gamma (ExponentialKernel_bandwidth (Finite b)) \<and>
   Evaluate (ExponentialKernel_bandwidth (Finite (- b))) t =
     Evaluate (ExponentialKernel_bandwidth (Finite b)) t \<and>
   Evaluate_vec (ExponentialKernel_bandwidth (Finite (- b))) u v =
     Evaluate_vec (ExponentialKernel_bandwidth (Finite b)) u v \<and>
   (2 powi (- 511) \<le> \<bar>b\<bar> \<and> \<bar>b\<bar> \<le> 2 powi 511 \<longrightarrow>
      (\<exists>g. Gamma (ExponentialKernel_bandwidth (Finite b)) = Finite g \<and> g < 0))"
proof -
  assume nz: "b \<noteq> 0"
  note g = gamma_minus_bandwidth [of b]
  have "Gamma (ExponentialKernel_bandwidth (Finite (- b))) =
      Gamma (ExponentialKernel_bandwidth (Finite b))"
    unfolding Gamma_def by (rule g)
  moreover have "Evaluate (ExponentialKernel_bandwidth (Finite (- b))) t =
      Evaluate (ExponentialKernel_bandwidth (Finite b)) t"
    unfolding Evaluate_def by (simp only: g)
  moreover have "Evaluate_vec (ExponentialKernel_bandwidth (Finite (- b))) u v =
      Evaluate_vec (ExponentialKernel_bandwidth (Finite b)) u v"
    unfolding Evaluate_vec_def by (simp only: g)
  moreover have "\<exists>g. Gamma (ExponentialKernel_bandwidth (Finite b)) = Finite g \<and> g < 0"
    if "2 powi (- 511) \<le> \<bar>b\<bar> \<and> \<bar>b\<bar> \<le> 2 powi 511"
    using that gamma_finite_negative [of b] unfolding Gamma_def by blast
  ultimately show ?thesis by blast
qed

theorem bandwidth_sign_irrelevant_witness:
  "(- 2 :: real) \<noteq> 0 \<and> 2 powi (- 511) \<le> \<bar>- 2 :: real\<bar> \<and> \<bar>- 2 :: real\<bar> \<le> 2 powi 511 \<and>
   Gamma (ExponentialKernel_bandwidth (Finite 2)) =
     Gamma (ExponentialKernel_bandwidth (Finite (- 2))) \<and>
   Evaluate (ExponentialKernel_bandwidth (Finite 2)) (Finite 3) =
     Evaluate (ExponentialKernel_bandwidth (Finite (- 2))) (Finite 3) \<and>
   Evaluate_vec (ExponentialKernel_bandwidth (Finite 2)) [Finite 0] [Finite 1] =
     Evaluate_vec (ExponentialKernel_bandwidth (Finite (- 2))) [Finite 0] [Finite 1] \<and>
   (\<exists>g. Gamma (ExponentialKernel_bandwidth (Finite (- 2))) = Finite g \<and> g < 0)"
proof -
  have "(2::real) powi (- 511) \<le> 2 powi 1" by (rule power_int_increasing) simp_all
  then have lo: "2 powi (- 511) \<le> \<bar>- 2 :: real\<bar>" by simp
  have "(2::real) powi 1 \<le> 2 powi 511" by (rule power_int_increasing) simp_all
  then have hi: "\<bar>- 2 :: real\<bar> \<le> 2 powi 511" by simp
  have nz: "(- 2 :: real) \<noteq> 0" by simp
  from bandwidth_sign_irrelevant [OF nz, of "Finite 3" "[Finite 0]" "[Finite 1]"] lo hi
  have "Gamma (ExponentialKernel_bandwidth (Finite 2)) =
     Gamma (ExponentialKernel_bandwidth (Finite (- 2))) \<and>
   Evaluate (ExponentialKernel_bandwidth (Finite 2)) (Finite 3) =
     Evaluate (ExponentialKernel_bandwidth (Finite (- 2))) (Finite 3) \<and>
   Evaluate_vec (ExponentialKernel_bandwidth (Finite 2)) [Finite 0] [Finite 1] =
     Evaluate_vec (ExponentialKernel_bandwidth (Finite (- 2))) [Finite 0] [Finite 1] \<and>
   (\<exists>g. Gamma (ExponentialKernel_bandwidth (Finite (- 2))) = Finite g \<and> g < 0)"
    by simp
  with nz lo hi show ?thesis by blast
qed

end
